theory Spec2Isabelle
  imports
    Complex_Main
    "HOL-Library.Char_ord"
    "HOL-Library.List_Lexorder"
    "HOL-Library.Product_Lexorder"
    "HOL-Library.Multiset"
begin

section \<open>Data model of todo.py\<close>

text \<open>
  A Python string is modelled by the list of its code points, for code points below 256
  (\<^typ>\<open>string\<close>). With the orders of
  Char_ord and List_Lexorder the order on \<^typ>\<open>string\<close> is the one Python
  uses to compare \<^verbatim>\<open>str\<close> values: lexicographic by code point, a proper prefix first.

  A task is a dictionary read with \<^verbatim>\<open>.get\<close>, so each of its five keys may be absent:
  a field is \<open>None\<close> when the key is missing. The values are the ones the program itself
  writes (a string id, a string title, an integer priority, a boolean done flag, an
  ISO timestamp string).
\<close>

record task =
  t_id :: "string option"
  t_title :: "string option"
  t_priority :: "int option"
  t_done :: "bool option"
  t_created :: "string option"

text \<open>
  The state dictionary has the keys \<^verbatim>\<open>tasks\<close> and \<^verbatim>\<open>show_index\<close>; the program
  reads the first with \<^verbatim>\<open>state.get("tasks", [])\<close>, so it may be absent too.
\<close>

record state =
  tasks :: "task list option"
  show_index :: "int option"

definition ROTATION_INTERVAL :: real where
  "ROTATION_INTERVAL = 2"

text \<open>\<^verbatim>\<open>state.get("tasks", [])\<close>\<close>

definition get_tasks :: "state \<Rightarrow> task list" where
  "get_tasks s = (case tasks s of None \<Rightarrow> [] | Some ts \<Rightarrow> ts)"

text \<open>Truthiness of \<^verbatim>\<open>task.get("done")\<close>: a missing key gives \<^verbatim>\<open>None\<close>, which is falsy.\<close>

definition get_done :: "task \<Rightarrow> bool" where
  "get_done t = (case t_done t of None \<Rightarrow> False | Some b \<Rightarrow> b)"

section \<open>Ordering and filtering\<close>

text \<open>
  The sort key of \<^verbatim>\<open>sorted_tasks\<close>:
  \<^verbatim>\<open>(t.get("priority", 3), t.get("created", ""), t.get("title", ""))\<close>.
\<close>

definition get_priority :: "task \<Rightarrow> int" where
  "get_priority t = (case t_priority t of None \<Rightarrow> 3 | Some p \<Rightarrow> p)"

definition get_created :: "task \<Rightarrow> string" where
  "get_created t = (case t_created t of None \<Rightarrow> [] | Some c \<Rightarrow> c)"

definition get_title :: "task \<Rightarrow> string" where
  "get_title t = (case t_title t of None \<Rightarrow> [] | Some n \<Rightarrow> n)"

definition task_key :: "task \<Rightarrow> int \<times> string \<times> string" where
  "task_key t = (get_priority t, get_created t, get_title t)"

text \<open>
  Python's \<^verbatim>\<open>sorted(tasks, key=...)\<close> is a stable sort by key, ascending;
  \<^const>\<open>sort_key\<close> is the stable insertion sort by key.
\<close>

definition sorted_tasks :: "task list \<Rightarrow> task list" where
  "sorted_tasks ts = sort_key task_key ts"

definition pending_tasks :: "state \<Rightarrow> task list" where
  "pending_tasks s = filter (\<lambda>t. \<not> get_done t) (get_tasks s)"

definition next_display_pool :: "state \<Rightarrow> task list" where
  "next_display_pool s =
     (let pool = sorted_tasks (pending_tasks s)
      in if pool \<noteq> [] then pool else sorted_tasks (get_tasks s))"

section \<open>Time-based rotation\<close>

text \<open>
  The clock reading \<^verbatim>\<open>time.time()\<close> is an argument of the model, a real number of
  seconds. Python's \<^verbatim>\<open>int(x)\<close> on a float truncates toward zero.
\<close>

definition py_int :: "real \<Rightarrow> int" where
  "py_int x = (if 0 \<le> x then \<lfloor>x\<rfloor> else \<lceil>x\<rceil>)"

text \<open>
  \<^verbatim>\<open>int(time.time() / ROTATION_INTERVAL) % len(pool)\<close>; the divisor is positive where
  the program computes it, so Python's \<^verbatim>\<open>%\<close> is \<open>mod\<close> on \<^typ>\<open>int\<close>.
\<close>

definition display_index :: "task list \<Rightarrow> real \<Rightarrow> nat" where
  "display_index pool now =
     nat (py_int (now / ROTATION_INTERVAL) mod int (length pool))"

definition get_display_task :: "state \<Rightarrow> real \<Rightarrow> task option" where
  "get_display_task s now =
     (let pool = sorted_tasks (pending_tasks s)
      in if pool = [] then None else Some (pool ! display_index pool now))"

section \<open>Mutations\<close>

text \<open>
  \<^verbatim>\<open>toggle_task\<close>: the loop over the task list stops at the first task whose id is
  the given one, replaces its done flag by the negation of its truthiness and returns
  True; it returns False when the loop ends.
\<close>

fun toggle_list :: "task list \<Rightarrow> string \<Rightarrow> task list \<times> bool" where
  "toggle_list [] tid = ([], False)"
| "toggle_list (t # ts) tid =
     (if t_id t = Some tid then (t\<lparr>t_done := Some (\<not> get_done t)\<rparr> # ts, True)
      else (case toggle_list ts tid of (ts', b) \<Rightarrow> (t # ts', b)))"

definition toggle_task :: "state \<Rightarrow> string \<Rightarrow> state \<times> bool" where
  "toggle_task s tid =
     (case tasks s of
        None \<Rightarrow> (s, False)
      | Some ts \<Rightarrow> (case toggle_list ts tid of (ts', b) \<Rightarrow> (s\<lparr>tasks := Some ts'\<rparr>, b)))"

text \<open>
  \<^verbatim>\<open>str.strip()\<close> removes leading and trailing whitespace: the code points
  U+0009 to U+000D, U+001C to U+0020, U+0085 and U+00A0 of the modelled range.
\<close>

definition is_space :: "char \<Rightarrow> bool" where
  "is_space c \<longleftrightarrow>
     c \<in> set [CHR 0x09, CHR 0x0A, CHR 0x0B, CHR 0x0C, CHR 0x0D,
              CHR 0x1C, CHR 0x1D, CHR 0x1E, CHR 0x1F, CHR 0x20, CHR 0x85, CHR 0xA0]"

definition strip :: "string \<Rightarrow> string" where
  "strip s = rev (dropWhile is_space (rev (dropWhile is_space s)))"

text \<open>
  \<^verbatim>\<open>add_task\<close>. The fresh id \<^verbatim>\<open>uuid4().hex[:10]\<close> and the timestamp
  \<^verbatim>\<open>datetime.now().isoformat()\<close> are arguments. The function returns nothing and has
  no branch: it appends in every case.
\<close>

definition new_task :: "string \<Rightarrow> int \<Rightarrow> string \<Rightarrow> string \<Rightarrow> task" where
  "new_task ttl prio uid stamp =
     \<lparr>t_id = Some uid, t_title = Some (strip ttl), t_priority = Some (max 1 (min prio 5)),
      t_done = Some False, t_created = Some stamp\<rparr>"

definition add_task :: "state \<Rightarrow> string \<Rightarrow> int \<Rightarrow> string \<Rightarrow> string \<Rightarrow> state" where
  "add_task s ttl prio uid stamp = s\<lparr>tasks := Some (get_tasks s @ [new_task ttl prio uid stamp])\<rparr>"


section \<open>The state store\<close>

text \<open>
  The data directory and the files in it, by file name; a file holds text. The program
  only ever touches \<^verbatim>\<open>tasks.json\<close>, \<^verbatim>\<open>tasks.tmp\<close> and \<^verbatim>\<open>tasks.json.bak\<close> there.
\<close>

record store =
  dir_exists :: bool
  files :: "string \<rightharpoonup> string"

datatype exn = JSONDecodeError | ValueError | FileNotFoundError

text \<open>
  What \<^verbatim>\<open>json.loads\<close> returned, seen through \<^verbatim>\<open>isinstance(raw, dict)\<close>: a dictionary,
  read as a state whose keys may be absent, or any other JSON value.
\<close>

datatype parsed = Dict state | NotDict

definition DATA_FILE :: string where
  "DATA_FILE = ''tasks.json''"

text \<open>
  \<^verbatim>\<open>PurePath.suffix\<close> and \<^verbatim>\<open>PurePath.with_suffix\<close> of pathlib, on a file name: the
  suffix starts at the last dot, unless that dot is the first or the last character.
\<close>

fun rfind_dot :: "string \<Rightarrow> nat option" where
  "rfind_dot [] = None"
| "rfind_dot (c # cs) =
     (case rfind_dot cs of
        Some i \<Rightarrow> Some (Suc i)
      | None \<Rightarrow> if c = CHR ''.'' then Some 0 else None)"

definition suffix :: "string \<Rightarrow> string" where
  "suffix name =
     (case rfind_dot name of
        None \<Rightarrow> []
      | Some i \<Rightarrow> if 0 < i \<and> Suc i < length name then drop i name else [])"

definition with_suffix :: "string \<Rightarrow> string \<Rightarrow> string" where
  "with_suffix name sfx =
     (let old_suffix = suffix name
      in if old_suffix = [] then name @ sfx
         else take (length name - length old_suffix) name @ sfx)"

definition ensure_data_dir :: "store \<Rightarrow> store" where
  "ensure_data_dir fs = fs\<lparr>dir_exists := True\<rparr>"

text \<open>
  \<^verbatim>\<open>Path.rename\<close> and \<^verbatim>\<open>Path.replace\<close>: the target is overwritten; a missing source
  raises.
\<close>

definition rename :: "string \<Rightarrow> string \<Rightarrow> store \<Rightarrow> exn + store" where
  "rename src dst fs =
     (case files fs src of
        None \<Rightarrow> Inl FileNotFoundError
      | Some txt \<Rightarrow> Inr (fs\<lparr>files := ((files fs)(src := None))(dst \<mapsto> txt)\<rparr>))"

text \<open>
  \<^verbatim>\<open>save_state\<close>; \<open>dumps\<close> stands for \<^verbatim>\<open>json.dump(state, f, indent=2)\<close>.
\<close>

definition save_state :: "(state \<Rightarrow> string) \<Rightarrow> state \<Rightarrow> store \<Rightarrow> exn + store" where
  "save_state dumps st fs0 =
     (let fs = ensure_data_dir fs0;
          tmp_file = with_suffix DATA_FILE ''.tmp'';
          fs1 = fs\<lparr>files := (files fs)(tmp_file \<mapsto> dumps st)\<rparr>
      in rename tmp_file DATA_FILE fs1)"

text \<open>
  \<^verbatim>\<open>DEFAULT_TASKS\<close>; the two timestamps are taken when the module is loaded.
\<close>

definition DEFAULT_TASKS :: "string \<Rightarrow> string \<Rightarrow> task list" where
  "DEFAULT_TASKS stamp1 stamp2 =
     [\<lparr>t_id = Some ''seed-quickstart'', t_title = Some ''Part 6'', t_priority = Some 1,
       t_done = Some False, t_created = Some stamp1\<rparr>,
      \<lparr>t_id = Some ''seed-manage'', t_title = Some ''Right click to edit or add'',
       t_priority = Some 3, t_done = Some False, t_created = Some stamp2\<rparr>]"

definition default_state :: "string \<Rightarrow> string \<Rightarrow> state" where
  "default_state stamp1 stamp2 = \<lparr>tasks = Some (DEFAULT_TASKS stamp1 stamp2), show_index = Some 0\<rparr>"

text \<open>
  The body of the \<^verbatim>\<open>try\<close> block of \<^verbatim>\<open>load_state\<close>: \<open>loads\<close> stands for
  \<^verbatim>\<open>json.loads\<close> and returns \<open>None\<close> where it raises.
\<close>

definition setdefaults :: "state \<Rightarrow> state" where
  "setdefaults raw =
     raw\<lparr>tasks := Some (case tasks raw of None \<Rightarrow> [] | Some ts \<Rightarrow> ts),
         show_index := Some (case show_index raw of None \<Rightarrow> 0 | Some i \<Rightarrow> i)\<rparr>"

definition parse_state :: "(string \<Rightarrow> parsed option) \<Rightarrow> string \<Rightarrow> exn + state" where
  "parse_state loads txt =
     (case loads txt of
        None \<Rightarrow> Inl JSONDecodeError
      | Some NotDict \<Rightarrow> Inl ValueError
      | Some (Dict raw) \<Rightarrow> Inr (setdefaults raw))"

definition load_state ::
  "(string \<Rightarrow> parsed option) \<Rightarrow> (state \<Rightarrow> string) \<Rightarrow> string \<Rightarrow> string \<Rightarrow> store
     \<Rightarrow> exn + (store \<times> state)" where
  "load_state loads dumps stamp1 stamp2 fs0 =
     (let fs = ensure_data_dir fs0
      in case files fs DATA_FILE of
           None \<Rightarrow>
             (let st = default_state stamp1 stamp2
              in case save_state dumps st fs of Inl e \<Rightarrow> Inl e | Inr fs' \<Rightarrow> Inr (fs', st))
         | Some txt \<Rightarrow>
             (case parse_state loads txt of
                Inr raw \<Rightarrow> Inr (fs, raw)
              | Inl _ \<Rightarrow>
                  (let backup = with_suffix DATA_FILE (suffix DATA_FILE @ ''.bak'')
                   in case rename DATA_FILE backup fs of
                        Inl e \<Rightarrow> Inl e
                      | Inr fs1 \<Rightarrow>
                          (let st = default_state stamp1 stamp2
                           in case save_state dumps st fs1 of
                                Inl e \<Rightarrow> Inl e
                              | Inr fs' \<Rightarrow> Inr (fs', st)))))"

section \<open>Example inputs\<close>

text \<open>
  Small states used in the examples: one whose only task is completed, one whose only
  task has no \<^verbatim>\<open>done\<close> key, and one in which a completed task comes before a task
  without \<^verbatim>\<open>done\<close> key that has the same id.
\<close>

definition done_state :: state where
  "done_state =
     \<lparr>tasks = Some [\<lparr>t_id = Some ''x'', t_title = Some ''t'', t_priority = Some 2,
                      t_done = Some True, t_created = Some ''c''\<rparr>],
      show_index = Some 0\<rparr>"

definition legacy_task :: task where
  "legacy_task =
     \<lparr>t_id = Some ''x'', t_title = Some ''t'', t_priority = Some 2,
      t_done = None, t_created = Some ''c''\<rparr>"

definition legacy_state :: state where
  "legacy_state = \<lparr>tasks = Some [legacy_task], show_index = Some 0\<rparr>"

definition earlier_task :: task where
  "earlier_task =
     \<lparr>t_id = Some ''x'', t_title = Some ''s'', t_priority = Some 1,
      t_done = Some True, t_created = Some ''b''\<rparr>"

definition duplicate_id_state :: state where
  "duplicate_id_state = \<lparr>tasks = Some [earlier_task, legacy_task], show_index = Some 0\<rparr>"

lemmas eval_defs =
  default_state_def DEFAULT_TASKS_def done_state_def legacy_state_def legacy_task_def
  get_tasks_def get_done_def pending_tasks_def
  sorted_tasks_def task_key_def get_priority_def get_created_def get_title_def

section \<open>Auxiliary facts\<close>

subsection \<open>Sorting and the pools\<close>

lemma sorted_tasks_Nil_iff: "sorted_tasks ts = [] \<longleftrightarrow> ts = []"
proof -
  have "length (sorted_tasks ts) = length ts"
    by (simp add: sorted_tasks_def)
  then show ?thesis
    by (metis length_0_conv)
qed

lemma set_sorted_tasks: "set (sorted_tasks ts) = set ts"
  by (simp add: sorted_tasks_def)

lemma key_le_iff:
  "task_key a \<le> task_key b \<longleftrightarrow>
     get_priority a < get_priority b \<or>
     (get_priority a = get_priority b \<and>
       (get_created a < get_created b \<or>
        (get_created a = get_created b \<and> get_title a \<le> get_title b)))"
  by (auto simp: task_key_def)

lemma next_display_pool_pending:
  "pending_tasks s \<noteq> [] \<Longrightarrow> next_display_pool s = sorted_tasks (pending_tasks s)"
  by (simp add: next_display_pool_def sorted_tasks_Nil_iff)

subsection \<open>The rotation index\<close>

lemma display_index_less: "pool \<noteq> [] \<Longrightarrow> display_index pool now < length pool"
proof -
  assume "pool \<noteq> []"
  then have pos: "0 < int (length pool)" by simp
  have "0 \<le> py_int (now / ROTATION_INTERVAL) mod int (length pool)"
    using pos by (rule pos_mod_sign)
  moreover have "py_int (now / ROTATION_INTERVAL) mod int (length pool) < int (length pool)"
    using pos by (rule pos_mod_bound)
  ultimately show ?thesis
    unfolding display_index_def by linarith
qed

lemma py_int_nonneg: "0 \<le> x \<Longrightarrow> py_int (x / ROTATION_INTERVAL) = \<lfloor>x / ROTATION_INTERVAL\<rfloor>"
  by (simp add: py_int_def ROTATION_INTERVAL_def)

lemma py_int_step:
  assumes "0 \<le> x"
  shows "py_int ((x + ROTATION_INTERVAL) / ROTATION_INTERVAL) = py_int (x / ROTATION_INTERVAL) + 1"
proof -
  have "(x + ROTATION_INTERVAL) / ROTATION_INTERVAL = x / ROTATION_INTERVAL + 1"
    by (simp add: ROTATION_INTERVAL_def add_divide_distrib)
  moreover have "0 \<le> x / ROTATION_INTERVAL"
    using assms by (simp add: ROTATION_INTERVAL_def)
  ultimately show ?thesis
    by (simp add: py_int_def)
qed

lemma display_index_step:
  assumes "pool \<noteq> []" and "0 \<le> now"
  shows "display_index pool (now + ROTATION_INTERVAL) = (display_index pool now + 1) mod length pool"
proof -
  define n where "n = int (length pool)"
  define k where "k = py_int (now / ROTATION_INTERVAL)"
  from assms(1) have pos: "0 < n" by (simp add: n_def)
  have m0: "0 \<le> k mod n" using pos by (rule pos_mod_sign)
  have "(k + 1) mod n = (k mod n + 1) mod n"
    by (simp add: mod_add_left_eq)
  then have "nat ((k + 1) mod n) = nat ((k mod n + 1) mod n)"
    by simp
  also have "\<dots> = nat (k mod n + 1) mod nat n"
    using m0 pos by (simp add: nat_mod_distrib)
  also have "nat (k mod n + 1) = nat (k mod n) + 1"
    using m0 by (simp add: nat_add_distrib)
  finally have "nat ((k + 1) mod n) = (nat (k mod n) + 1) mod length pool"
    by (simp add: n_def)
  with py_int_step [OF assms(2)] show ?thesis
    by (simp add: display_index_def k_def n_def)
qed

lemma nat_floor_mod:
  assumes "0 \<le> (x::real)" and "0 < n"
  shows "nat (\<lfloor>x\<rfloor> mod int n) = nat \<lfloor>x\<rfloor> mod n"
proof -
  from assms(1) have "0 \<le> \<lfloor>x\<rfloor>" by simp
  then show ?thesis
    using assms(2) by (simp add: nat_mod_distrib)
qed

lemma get_display_task_nonempty:
  "sorted_tasks (pending_tasks s) \<noteq> [] \<Longrightarrow>
     get_display_task s now =
       Some (sorted_tasks (pending_tasks s) ! display_index (sorted_tasks (pending_tasks s)) now)"
  by (simp add: get_display_task_def Let_def)

lemma get_display_task_None_iff: "get_display_task s now = None \<longleftrightarrow> pending_tasks s = []"
  by (simp add: get_display_task_def Let_def sorted_tasks_Nil_iff)

subsection \<open>Toggling\<close>

lemma toggle_list_no_match:
  "\<forall>t\<in>set ts. t_id t \<noteq> Some tid \<Longrightarrow> toggle_list ts tid = (ts, False)"
  by (induction ts) simp_all

lemma toggle_list_first_match:
  "\<forall>u\<in>set pre. t_id u \<noteq> Some tid \<Longrightarrow> t_id t = Some tid \<Longrightarrow>
     toggle_list (pre @ t # post) tid = (pre @ t\<lparr>t_done := Some (\<not> get_done t)\<rparr> # post, True)"
  by (induction pre) simp_all

lemma first_match_split:
  "\<exists>t\<in>set ts. t_id t = Some tid \<Longrightarrow>
     \<exists>pre t post. ts = pre @ t # post \<and> (\<forall>u\<in>set pre. t_id u \<noteq> Some tid) \<and> t_id t = Some tid"
proof -
  assume "\<exists>t\<in>set ts. t_id t = Some tid"
  then obtain pre t post where "ts = pre @ t # post" "t_id t = Some tid"
    "\<forall>u\<in>set pre. \<not> t_id u = Some tid"
    using split_list_first_prop [of ts "\<lambda>t. t_id t = Some tid"] by blast
  then show ?thesis by blast
qed

lemma toggle_task_no_match:
  assumes "\<forall>t\<in>set (get_tasks s). t_id t \<noteq> Some tid"
  shows "toggle_task s tid = (s, False)"
proof (cases "tasks s")
  case None
  then show ?thesis by (simp add: toggle_task_def)
next
  case (Some ts)
  with assms have "toggle_list ts tid = (ts, False)"
    by (simp add: toggle_list_no_match get_tasks_def)
  with Some show ?thesis by (simp add: toggle_task_def)
qed

lemma toggle_task_first_match:
  assumes "get_tasks s = pre @ t # post" "\<forall>u\<in>set pre. t_id u \<noteq> Some tid" "t_id t = Some tid"
  shows "toggle_task s tid =
           (s\<lparr>tasks := Some (pre @ t\<lparr>t_done := Some (\<not> get_done t)\<rparr> # post)\<rparr>, True)"
proof (cases "tasks s")
  case None
  with assms(1) show ?thesis by (simp add: get_tasks_def)
next
  case (Some ts)
  with assms(1) have "ts = pre @ t # post" by (simp add: get_tasks_def)
  with Some assms(2,3) show ?thesis
    by (simp add: toggle_task_def toggle_list_first_match)
qed

lemma toggle_task_returns_True:
  assumes "\<exists>t\<in>set (get_tasks s). t_id t = Some tid"
  shows "snd (toggle_task s tid)"
proof -
  from assms obtain pre t post where "get_tasks s = pre @ t # post"
    "\<forall>u\<in>set pre. t_id u \<noteq> Some tid" "t_id t = Some tid"
    using first_match_split by blast
  then have "toggle_task s tid =
      (s\<lparr>tasks := Some (pre @ t\<lparr>t_done := Some (\<not> get_done t)\<rparr> # post)\<rparr>, True)"
    by (rule toggle_task_first_match)
  then show ?thesis by simp
qed

subsection \<open>Adding\<close>





subsection \<open>The store\<close>

lemma tmp_file_name: "with_suffix DATA_FILE ''.tmp'' = ''tasks.tmp''"
  by (simp add: with_suffix_def suffix_def DATA_FILE_def)

lemma backup_name: "with_suffix DATA_FILE (suffix DATA_FILE @ ''.bak'') = ''tasks.json.bak''"
  by (simp add: with_suffix_def suffix_def DATA_FILE_def)

lemma save_state_result:
  "save_state dumps st fs =
     Inr (fs\<lparr>dir_exists := True,
             files := ((files fs)(''tasks.tmp'' := None))(''tasks.json'' \<mapsto> dumps st)\<rparr>)"
  unfolding save_state_def tmp_file_name
  by (simp add: rename_def ensure_data_dir_def DATA_FILE_def)

lemma parse_state_fails:
  "loads txt = None \<or> loads txt = Some NotDict \<Longrightarrow> \<exists>e. parse_state loads txt = Inl e"
  by (auto simp: parse_state_def)

section \<open>The claims\<close>

subsection \<open>C1: what the time-based selection returns\<close>

text \<open>
  C1 says that \<^verbatim>\<open>currentTask\<close> returns none exactly when the display pool is empty, and
  that a nonempty collection in which every task is done still yields a task from the
  fallback pool. \<^verbatim>\<open>get_display_task\<close> builds its pool from the pending tasks only: on
  a state whose only task is done the display pool is nonempty and the selection is none.
\<close>

theorem currentTask_fallback_counterexample:
  "next_display_pool done_state \<noteq> [] \<and> get_display_task done_state 0 = None"
  by (simp add: next_display_pool_def get_display_task_def eval_defs)

text \<open>
  C1 as amended: \<^verbatim>\<open>get_display_task\<close> returns none if and only if there is no pending
  task. When there is one, the display pool is the sorted pending list and the result is
  its element at index \<^verbatim>\<open>int(now / ROTATION_INTERVAL) mod poolSize\<close>, where \<^verbatim>\<open>int\<close>
  truncates toward zero, which is \<open>floor (now / ROTATION_INTERVAL) mod poolSize\<close> for a
  clock reading \<open>now \<ge> 0\<close>. For a nonempty collection in which every task is done the
  result is none although the display pool is not empty.
\<close>

theorem get_display_task_spec:
  "(get_display_task s now = None \<longleftrightarrow> pending_tasks s = []) \<and>
   (pending_tasks s \<noteq> [] \<longrightarrow>
      next_display_pool s = sorted_tasks (pending_tasks s) \<and>
      get_display_task s now =
        Some (next_display_pool s !
          nat (py_int (now / ROTATION_INTERVAL) mod int (length (next_display_pool s))))) \<and>
   (pending_tasks s \<noteq> [] \<and> 0 \<le> now \<longrightarrow>
      get_display_task s now =
        Some (next_display_pool s !
          (nat \<lfloor>now / ROTATION_INTERVAL\<rfloor> mod length (next_display_pool s)))) \<and>
   (get_tasks s \<noteq> [] \<and> (\<forall>t\<in>set (get_tasks s). get_done t) \<longrightarrow>
      get_display_task s now = None \<and> next_display_pool s \<noteq> [])"
proof (intro conjI)
  show "get_display_task s now = None \<longleftrightarrow> pending_tasks s = []"
    by (rule get_display_task_None_iff)
next
  show "pending_tasks s \<noteq> [] \<longrightarrow>
      next_display_pool s = sorted_tasks (pending_tasks s) \<and>
      get_display_task s now =
        Some (next_display_pool s !
          nat (py_int (now / ROTATION_INTERVAL) mod int (length (next_display_pool s))))"
  proof
    assume ne: "pending_tasks s \<noteq> []"
    then have p: "next_display_pool s = sorted_tasks (pending_tasks s)"
      by (rule next_display_pool_pending)
    from ne have "sorted_tasks (pending_tasks s) \<noteq> []"
      by (simp add: sorted_tasks_Nil_iff)
    from get_display_task_nonempty [OF this, of now] p
    show "next_display_pool s = sorted_tasks (pending_tasks s) \<and>
      get_display_task s now =
        Some (next_display_pool s !
          nat (py_int (now / ROTATION_INTERVAL) mod int (length (next_display_pool s))))"
      by (simp add: display_index_def)
  qed
next
  show "pending_tasks s \<noteq> [] \<and> 0 \<le> now \<longrightarrow>
      get_display_task s now =
        Some (next_display_pool s !
          (nat \<lfloor>now / ROTATION_INTERVAL\<rfloor> mod length (next_display_pool s)))"
  proof
    assume a: "pending_tasks s \<noteq> [] \<and> 0 \<le> now"
    then have ne: "pending_tasks s \<noteq> []" and t: "0 \<le> now" by simp_all
    from ne have p: "next_display_pool s = sorted_tasks (pending_tasks s)"
      by (rule next_display_pool_pending)
    from ne have sne: "sorted_tasks (pending_tasks s) \<noteq> []"
      by (simp add: sorted_tasks_Nil_iff)
    from t have "0 \<le> now / ROTATION_INTERVAL"
      by (simp add: ROTATION_INTERVAL_def)
    moreover from sne have "0 < length (sorted_tasks (pending_tasks s))" by simp
    ultimately have "nat (\<lfloor>now / ROTATION_INTERVAL\<rfloor> mod int (length (sorted_tasks (pending_tasks s))))
        = nat \<lfloor>now / ROTATION_INTERVAL\<rfloor> mod length (sorted_tasks (pending_tasks s))"
      by (rule nat_floor_mod)
    with get_display_task_nonempty [OF sne, of now] p py_int_nonneg [OF t]
    show "get_display_task s now =
        Some (next_display_pool s !
          (nat \<lfloor>now / ROTATION_INTERVAL\<rfloor> mod length (next_display_pool s)))"
      by (simp add: display_index_def)
  qed
next
  show "get_tasks s \<noteq> [] \<and> (\<forall>t\<in>set (get_tasks s). get_done t) \<longrightarrow>
      get_display_task s now = None \<and> next_display_pool s \<noteq> []"
  proof
    assume a: "get_tasks s \<noteq> [] \<and> (\<forall>t\<in>set (get_tasks s). get_done t)"
    then have "pending_tasks s = []"
      by (simp add: pending_tasks_def)
    then have "get_display_task s now = None"
      by (simp add: get_display_task_None_iff)
    moreover from a have "next_display_pool s \<noteq> []"
      by (simp add: next_display_pool_def Let_def sorted_tasks_Nil_iff)
    ultimately show "get_display_task s now = None \<and> next_display_pool s \<noteq> []" ..
  qed
qed

theorem get_display_task_spec_witness:
  "get_display_task (default_state ''a'' ''b'') 3 = Some (DEFAULT_TASKS ''a'' ''b'' ! 1) \<and>
   get_display_task done_state 3 = None"
proof -
  have h1: "pending_tasks (default_state ''a'' ''b'') \<noteq> [] \<and> (0::real) \<le> 3"
    by (simp add: eval_defs)
  have p: "next_display_pool (default_state ''a'' ''b'') = DEFAULT_TASKS ''a'' ''b''"
    by (simp add: next_display_pool_def eval_defs)
  have h2: "get_tasks done_state \<noteq> [] \<and> (\<forall>t\<in>set (get_tasks done_state). get_done t)"
    by (simp add: eval_defs)
  from get_display_task_spec [of "default_state ''a'' ''b''" 3] h1
  have "get_display_task (default_state ''a'' ''b'') 3 =
      Some (next_display_pool (default_state ''a'' ''b'') !
        (nat \<lfloor>3 / ROTATION_INTERVAL\<rfloor>
           mod length (next_display_pool (default_state ''a'' ''b''))))"
    by blast
  moreover have "nat \<lfloor>3 / ROTATION_INTERVAL\<rfloor> mod length (DEFAULT_TASKS ''a'' ''b'') = 1"
    by (simp add: ROTATION_INTERVAL_def DEFAULT_TASKS_def)
  ultimately have "get_display_task (default_state ''a'' ''b'') 3 = Some (DEFAULT_TASKS ''a'' ''b'' ! 1)"
    by (simp only: p)
  moreover from get_display_task_spec [of done_state 3] h2
  have "get_display_task done_state 3 = None"
    by blast
  ultimately show ?thesis ..
qed

subsection \<open>C2: adding a task whose title is blank\<close>




subsection \<open>C3: the display pool\<close>

text \<open>
  C3: the display pool is the sorted pending tasks when there is a pending task, and the
  full sorted collection otherwise; it is empty if and only if the collection is empty.
\<close>

theorem next_display_pool_spec:
  "(pending_tasks s \<noteq> [] \<longrightarrow> next_display_pool s = sorted_tasks (pending_tasks s)) \<and>
   (pending_tasks s = [] \<longrightarrow> next_display_pool s = sorted_tasks (get_tasks s)) \<and>
   (next_display_pool s = [] \<longleftrightarrow> get_tasks s = [])"
proof (intro conjI impI)
  assume "pending_tasks s \<noteq> []"
  then show "next_display_pool s = sorted_tasks (pending_tasks s)"
    by (rule next_display_pool_pending)
next
  assume "pending_tasks s = []"
  then show "next_display_pool s = sorted_tasks (get_tasks s)"
    by (simp add: next_display_pool_def sorted_tasks_Nil_iff)
next
  show "next_display_pool s = [] \<longleftrightarrow> get_tasks s = []"
  proof
    assume "next_display_pool s = []"
    then show "get_tasks s = []"
      by (simp add: next_display_pool_def Let_def sorted_tasks_Nil_iff split: if_splits)
  next
    assume e: "get_tasks s = []"
    then have "pending_tasks s = []"
      by (simp add: pending_tasks_def)
    with e show "next_display_pool s = []"
      by (simp add: next_display_pool_def sorted_tasks_Nil_iff)
  qed
qed

theorem next_display_pool_spec_witness:
  "next_display_pool (default_state ''a'' ''b'') =
     sorted_tasks (pending_tasks (default_state ''a'' ''b'')) \<and>
   next_display_pool done_state = sorted_tasks (get_tasks done_state) \<and>
   next_display_pool done_state \<noteq> []"
proof -
  have h1: "pending_tasks (default_state ''a'' ''b'') \<noteq> []"
    by (simp add: eval_defs)
  have h2: "pending_tasks done_state = []"
    by (simp add: eval_defs)
  have h3: "get_tasks done_state \<noteq> []"
    by (simp add: eval_defs)
  from next_display_pool_spec [of "default_state ''a'' ''b''"] h1
  have "next_display_pool (default_state ''a'' ''b'') =
      sorted_tasks (pending_tasks (default_state ''a'' ''b''))"
    by blast
  moreover from next_display_pool_spec [of done_state] h2 h3
  have "next_display_pool done_state = sorted_tasks (get_tasks done_state) \<and>
      next_display_pool done_state \<noteq> []"
    by blast
  ultimately show ?thesis by blast
qed

subsection \<open>C4: the sort order\<close>

text \<open>
  C4: \<^verbatim>\<open>sorted_tasks\<close> returns a rearrangement of its argument in which an earlier
  task never comes after a later one in the lexicographic order of (priority, created,
  title); sorting twice is sorting once, and a list that is already in that order is
  returned as it is.
\<close>

theorem sorted_tasks_spec:
  "mset (sorted_tasks ts) = mset ts \<and>
   (\<forall>i j. i < j \<and> j < length ts \<longrightarrow>
      (let a = sorted_tasks ts ! i; b = sorted_tasks ts ! j
       in get_priority a < get_priority b \<or>
          (get_priority a = get_priority b \<and>
            (get_created a < get_created b \<or>
             (get_created a = get_created b \<and> get_title a \<le> get_title b))))) \<and>
   sorted_tasks (sorted_tasks ts) = sorted_tasks ts \<and>
   (sorted (map task_key ts) \<longrightarrow> sorted_tasks ts = ts)"
proof (intro conjI allI impI)
  show "mset (sorted_tasks ts) = mset ts"
    by (simp add: sorted_tasks_def)
next
  fix i j
  assume ij: "i < j \<and> j < length ts"
  have srt: "sorted (map task_key (sorted_tasks ts))"
    by (simp add: sorted_tasks_def)
  have len: "length (sorted_tasks ts) = length ts"
    by (simp add: sorted_tasks_def)
  from ij len have "map task_key (sorted_tasks ts) ! i \<le> map task_key (sorted_tasks ts) ! j"
    using srt by (intro sorted_nth_mono) simp_all
  with ij len have "task_key (sorted_tasks ts ! i) \<le> task_key (sorted_tasks ts ! j)"
    by simp
  then show "let a = sorted_tasks ts ! i; b = sorted_tasks ts ! j
       in get_priority a < get_priority b \<or>
          (get_priority a = get_priority b \<and>
            (get_created a < get_created b \<or>
             (get_created a = get_created b \<and> get_title a \<le> get_title b)))"
    unfolding Let_def by (simp only: key_le_iff)
next
  have "sorted (map task_key (sorted_tasks ts))"
    by (simp add: sorted_tasks_def)
  then show "sorted_tasks (sorted_tasks ts) = sorted_tasks ts"
    unfolding sorted_tasks_def by (rule sort_key_id_if_sorted)
next
  assume "sorted (map task_key ts)"
  then show "sorted_tasks ts = ts"
    unfolding sorted_tasks_def by (rule sort_key_id_if_sorted)
qed

theorem sorted_tasks_spec_witness:
  "sorted_tasks (DEFAULT_TASKS ''a'' ''b'') = DEFAULT_TASKS ''a'' ''b'' \<and>
   get_priority (sorted_tasks (rev (DEFAULT_TASKS ''a'' ''b'')) ! 0)
     < get_priority (sorted_tasks (rev (DEFAULT_TASKS ''a'' ''b'')) ! 1)"
proof -
  have h1: "sorted (map task_key (DEFAULT_TASKS ''a'' ''b''))"
    by (simp add: eval_defs)
  have h2: "(0::nat) < 1 \<and> 1 < length (rev (DEFAULT_TASKS ''a'' ''b''))"
    by (simp add: eval_defs)
  from sorted_tasks_spec [of "DEFAULT_TASKS ''a'' ''b''"] h1
  have "sorted_tasks (DEFAULT_TASKS ''a'' ''b'') = DEFAULT_TASKS ''a'' ''b''"
    by blast
  moreover from sorted_tasks_spec [of "rev (DEFAULT_TASKS ''a'' ''b'')"] h2
  have "let a = sorted_tasks (rev (DEFAULT_TASKS ''a'' ''b'')) ! 0;
            b = sorted_tasks (rev (DEFAULT_TASKS ''a'' ''b'')) ! 1
        in get_priority a < get_priority b \<or>
           (get_priority a = get_priority b \<and>
             (get_created a < get_created b \<or>
              (get_created a = get_created b \<and> get_title a \<le> get_title b)))"
    by blast
  then have "get_priority (sorted_tasks (rev (DEFAULT_TASKS ''a'' ''b'')) ! 0)
     < get_priority (sorted_tasks (rev (DEFAULT_TASKS ''a'' ''b'')) ! 1)"
    by (simp add: eval_defs)
  ultimately show ?thesis ..
qed

subsection \<open>C5: rotation is a function of the time\<close>

text \<open>
  C5: the selection depends on the state only through the pool and on nothing else but
  the time, so two states with the same pool give the same task at the same time; and for
  a nonempty pool and a clock reading \<open>now \<ge> 0\<close> (seconds since the epoch), the task
  selected at \<open>now + ROTATION_INTERVAL\<close> is the one whose pool index is one greater,
  modulo the pool size, than the index selected at \<open>now\<close>.
\<close>

theorem rotation_step:
  "(sorted_tasks (pending_tasks s) = sorted_tasks (pending_tasks s') \<longrightarrow>
      get_display_task s now = get_display_task s' now) \<and>
   (sorted_tasks (pending_tasks s) \<noteq> [] \<and> 0 \<le> now \<longrightarrow>
      (let pool = sorted_tasks (pending_tasks s); i = display_index pool now
       in i < length pool \<and>
          get_display_task s now = Some (pool ! i) \<and>
          get_display_task s (now + ROTATION_INTERVAL) = Some (pool ! ((i + 1) mod length pool))))"
proof (rule conjI)
  show "sorted_tasks (pending_tasks s) = sorted_tasks (pending_tasks s') \<longrightarrow>
      get_display_task s now = get_display_task s' now"
    by (simp add: get_display_task_def)
next
  show "sorted_tasks (pending_tasks s) \<noteq> [] \<and> 0 \<le> now \<longrightarrow>
      (let pool = sorted_tasks (pending_tasks s); i = display_index pool now
       in i < length pool \<and>
          get_display_task s now = Some (pool ! i) \<and>
          get_display_task s (now + ROTATION_INTERVAL) = Some (pool ! ((i + 1) mod length pool)))"
  proof
    assume a: "sorted_tasks (pending_tasks s) \<noteq> [] \<and> 0 \<le> now"
    then have ne: "sorted_tasks (pending_tasks s) \<noteq> []" and t: "0 \<le> now"
      by simp_all
    from ne have "display_index (sorted_tasks (pending_tasks s)) now
        < length (sorted_tasks (pending_tasks s))"
      by (rule display_index_less)
    moreover note get_display_task_nonempty [OF ne, of now]
    moreover have "get_display_task s (now + ROTATION_INTERVAL) =
        Some (sorted_tasks (pending_tasks s) !
          ((display_index (sorted_tasks (pending_tasks s)) now + 1)
             mod length (sorted_tasks (pending_tasks s))))"
      using get_display_task_nonempty [OF ne, of "now + ROTATION_INTERVAL"]
        display_index_step [OF ne t] by simp
    ultimately show "let pool = sorted_tasks (pending_tasks s); i = display_index pool now
       in i < length pool \<and>
          get_display_task s now = Some (pool ! i) \<and>
          get_display_task s (now + ROTATION_INTERVAL) = Some (pool ! ((i + 1) mod length pool))"
      by (simp add: Let_def)
  qed
qed

theorem rotation_step_witness:
  "get_display_task (default_state ''a'' ''b'') 0 = Some (DEFAULT_TASKS ''a'' ''b'' ! 0) \<and>
   get_display_task (default_state ''a'' ''b'') (0 + ROTATION_INTERVAL) =
     Some (DEFAULT_TASKS ''a'' ''b'' ! 1)"
proof -
  have p: "sorted_tasks (pending_tasks (default_state ''a'' ''b'')) = DEFAULT_TASKS ''a'' ''b''"
    by (simp add: eval_defs)
  have h: "sorted_tasks (pending_tasks (default_state ''a'' ''b'')) \<noteq> [] \<and> (0::real) \<le> 0"
    by (simp add: eval_defs)
  have i: "display_index (DEFAULT_TASKS ''a'' ''b'') 0 = 0"
    by (simp add: display_index_def py_int_def)
  have l: "length (DEFAULT_TASKS ''a'' ''b'') = 2"
    by (simp add: DEFAULT_TASKS_def)
  from rotation_step [of "default_state ''a'' ''b''" "default_state ''a'' ''b''" 0] h
  have "let pool = sorted_tasks (pending_tasks (default_state ''a'' ''b''));
            i = display_index pool 0
        in i < length pool \<and>
           get_display_task (default_state ''a'' ''b'') 0 = Some (pool ! i) \<and>
           get_display_task (default_state ''a'' ''b'') (0 + ROTATION_INTERVAL) =
             Some (pool ! ((i + 1) mod length pool))"
    by blast
  then show ?thesis
    unfolding Let_def p i l by simp
qed

subsection \<open>C6: loading a corrupt or missing file\<close>

text \<open>
  C6: when the backing file exists and its content does not parse, or parses to
  something that is not a dictionary, \<^verbatim>\<open>load_state\<close> raises nothing: it moves the
  content to \<^verbatim>\<open>tasks.json.bak\<close> (the file name with \<^verbatim>\<open>.bak\<close> appended after its
  extension), writes the default state to \<^verbatim>\<open>tasks.json\<close> and returns the default state.
  When there is no backing file it writes and returns the default state as well. The
  default state holds the two seed tasks and \<^verbatim>\<open>show_index\<close> 0.
\<close>

theorem load_state_recovers:
  "(files fs ''tasks.json'' = Some txt \<and> (loads txt = None \<or> loads txt = Some NotDict) \<longrightarrow>
      load_state loads dumps stamp1 stamp2 fs =
        Inr (fs\<lparr>dir_exists := True,
                files := (files fs)(''tasks.json.bak'' \<mapsto> txt, ''tasks.tmp'' := None,
                                    ''tasks.json'' \<mapsto> dumps (default_state stamp1 stamp2))\<rparr>,
             default_state stamp1 stamp2)) \<and>
   (files fs ''tasks.json'' = None \<longrightarrow>
      load_state loads dumps stamp1 stamp2 fs =
        Inr (fs\<lparr>dir_exists := True,
                files := (files fs)(''tasks.tmp'' := None,
                                    ''tasks.json'' \<mapsto> dumps (default_state stamp1 stamp2))\<rparr>,
             default_state stamp1 stamp2)) \<and>
   with_suffix DATA_FILE (suffix DATA_FILE @ ''.bak'') = DATA_FILE @ ''.bak'' \<and>
   map t_title (get_tasks (default_state stamp1 stamp2)) =
     [Some ''Part 6'', Some ''Right click to edit or add''] \<and>
   show_index (default_state stamp1 stamp2) = Some 0"
proof (intro conjI impI)
  assume a: "files fs ''tasks.json'' = Some txt \<and> (loads txt = None \<or> loads txt = Some NotDict)"
  then obtain e where e: "parse_state loads txt = Inl e"
    using parse_state_fails by blast
  have r: "rename DATA_FILE ''tasks.json.bak'' (ensure_data_dir fs) =
      Inr (fs\<lparr>dir_exists := True,
              files := ((files fs)(''tasks.json'' := None))(''tasks.json.bak'' \<mapsto> txt)\<rparr>)"
    using a by (simp add: rename_def ensure_data_dir_def DATA_FILE_def)
  have m: "((files fs)(''tasks.json'' := None, ''tasks.json.bak'' \<mapsto> txt, ''tasks.tmp'' := None,
              ''tasks.json'' \<mapsto> d)) =
           (files fs)(''tasks.json.bak'' \<mapsto> txt, ''tasks.tmp'' := None, ''tasks.json'' \<mapsto> d)" for d
    by (rule ext) simp
  from a have "files (ensure_data_dir fs) DATA_FILE = Some txt"
    by (simp add: ensure_data_dir_def DATA_FILE_def)
  with e r show "load_state loads dumps stamp1 stamp2 fs =
        Inr (fs\<lparr>dir_exists := True,
                files := (files fs)(''tasks.json.bak'' \<mapsto> txt, ''tasks.tmp'' := None,
                                    ''tasks.json'' \<mapsto> dumps (default_state stamp1 stamp2))\<rparr>,
             default_state stamp1 stamp2)"
    unfolding load_state_def backup_name
    by (simp add: save_state_result m Let_def)
next
  assume "files fs ''tasks.json'' = None"
  then have "files (ensure_data_dir fs) DATA_FILE = None"
    by (simp add: ensure_data_dir_def DATA_FILE_def)
  then show "load_state loads dumps stamp1 stamp2 fs =
        Inr (fs\<lparr>dir_exists := True,
                files := (files fs)(''tasks.tmp'' := None,
                                    ''tasks.json'' \<mapsto> dumps (default_state stamp1 stamp2))\<rparr>,
             default_state stamp1 stamp2)"
    by (simp add: load_state_def Let_def save_state_result ensure_data_dir_def)
next
  show "with_suffix DATA_FILE (suffix DATA_FILE @ ''.bak'') = DATA_FILE @ ''.bak''"
    unfolding backup_name by (simp add: DATA_FILE_def)
next
  show "map t_title (get_tasks (default_state stamp1 stamp2)) =
     [Some ''Part 6'', Some ''Right click to edit or add'']"
    by (simp add: default_state_def DEFAULT_TASKS_def get_tasks_def)
next
  show "show_index (default_state stamp1 stamp2) = Some 0"
    by (simp add: default_state_def)
qed

theorem load_state_recovers_witness:
  "load_state (\<lambda>txt. if txt = ''[]'' then Some NotDict else None) (\<lambda>st. ''saved'') ''a'' ''b''
      \<lparr>dir_exists = True, files = [''tasks.json'' \<mapsto> ''{oops'']\<rparr> =
     Inr (\<lparr>dir_exists = True,
           files = [''tasks.json.bak'' \<mapsto> ''{oops'', ''tasks.json'' \<mapsto> ''saved'']\<rparr>,
          default_state ''a'' ''b'') \<and>
   load_state (\<lambda>txt. if txt = ''[]'' then Some NotDict else None) (\<lambda>st. ''saved'') ''a'' ''b''
      \<lparr>dir_exists = True, files = [''tasks.json'' \<mapsto> ''[]'']\<rparr> =
     Inr (\<lparr>dir_exists = True,
           files = [''tasks.json.bak'' \<mapsto> ''[]'', ''tasks.json'' \<mapsto> ''saved'']\<rparr>,
          default_state ''a'' ''b'') \<and>
   load_state (\<lambda>txt. if txt = ''[]'' then Some NotDict else None) (\<lambda>st. ''saved'') ''a'' ''b''
      \<lparr>dir_exists = False, files = Map.empty\<rparr> =
     Inr (\<lparr>dir_exists = True, files = [''tasks.json'' \<mapsto> ''saved'']\<rparr>,
          default_state ''a'' ''b'')"
proof -
  let ?loads = "\<lambda>txt. if txt = ''[]'' then Some NotDict else None"
  let ?dumps = "\<lambda>st::state. ''saved''"
  let ?fs1 = "\<lparr>dir_exists = True, files = [''tasks.json'' \<mapsto> ''{oops'']\<rparr>"
  let ?fs2 = "\<lparr>dir_exists = True, files = [''tasks.json'' \<mapsto> ''[]'']\<rparr>"
  let ?fs3 = "\<lparr>dir_exists = False, files = Map.empty\<rparr>"
  have h1: "files ?fs1 ''tasks.json'' = Some ''{oops'' \<and>
      (?loads ''{oops'' = None \<or> ?loads ''{oops'' = Some NotDict)"
    by simp
  have h2: "files ?fs2 ''tasks.json'' = Some ''[]'' \<and>
      (?loads ''[]'' = None \<or> ?loads ''[]'' = Some NotDict)"
    by simp
  have h3: "files ?fs3 ''tasks.json'' = None"
    by simp
  have m: "([''tasks.json'' \<mapsto> t])(''tasks.json.bak'' \<mapsto> t, ''tasks.tmp'' := None,
              ''tasks.json'' \<mapsto> d)
      = [''tasks.json.bak'' \<mapsto> t, ''tasks.json'' \<mapsto> d]" for t d :: string
    by (rule ext) simp
  have m3: "(Map.empty(''tasks.tmp'' := None, ''tasks.json'' \<mapsto> d)) = [''tasks.json'' \<mapsto> d]"
    for d :: string
    by (rule ext) simp
  from load_state_recovers [of ?fs1 "''{oops''" ?loads ?dumps "''a''" "''b''"] h1
  have "load_state ?loads ?dumps ''a'' ''b'' ?fs1 =
     Inr (\<lparr>dir_exists = True,
           files = [''tasks.json.bak'' \<mapsto> ''{oops'', ''tasks.json'' \<mapsto> ''saved'']\<rparr>,
          default_state ''a'' ''b'')"
    by (simp add: m)
  moreover from load_state_recovers [of ?fs2 "''[]''" ?loads ?dumps "''a''" "''b''"] h2
  have "load_state ?loads ?dumps ''a'' ''b'' ?fs2 =
     Inr (\<lparr>dir_exists = True,
           files = [''tasks.json.bak'' \<mapsto> ''[]'', ''tasks.json'' \<mapsto> ''saved'']\<rparr>,
          default_state ''a'' ''b'')"
    by (simp add: m)
  moreover from load_state_recovers [of ?fs3 _ ?loads ?dumps "''a''" "''b''"] h3
  have "load_state ?loads ?dumps ''a'' ''b'' ?fs3 =
     Inr (\<lparr>dir_exists = True, files = [''tasks.json'' \<mapsto> ''saved'']\<rparr>,
          default_state ''a'' ''b'')"
    by (simp add: m3)
  ultimately show ?thesis by blast
qed

subsection \<open>C7: toggling by id\<close>

text \<open>
  C7: \<^verbatim>\<open>toggle_task\<close> returns true if and only if some task of the collection has the
  given id. Then the first such task has its done flag replaced by the negation of its
  truthiness, and the tasks before and after it, and the rest of the state, are as they
  were. When no task has the id, the state is returned unchanged.
\<close>

theorem toggle_task_spec:
  "snd (toggle_task s tid) = (\<exists>t\<in>set (get_tasks s). t_id t = Some tid) \<and>
   ((\<exists>t\<in>set (get_tasks s). t_id t = Some tid) \<longrightarrow>
      (\<exists>pre t post. get_tasks s = pre @ t # post \<and>
         (\<forall>u\<in>set pre. t_id u \<noteq> Some tid) \<and> t_id t = Some tid \<and>
         fst (toggle_task s tid) =
           s\<lparr>tasks := Some (pre @ t\<lparr>t_done := Some (\<not> get_done t)\<rparr> # post)\<rparr>)) \<and>
   ((\<forall>t\<in>set (get_tasks s). t_id t \<noteq> Some tid) \<longrightarrow> fst (toggle_task s tid) = s)"
proof (cases "\<exists>t\<in>set (get_tasks s). t_id t = Some tid")
  case True
  then obtain pre t post where sp: "get_tasks s = pre @ t # post"
    "\<forall>u\<in>set pre. t_id u \<noteq> Some tid" "t_id t = Some tid"
    using first_match_split by blast
  then have "toggle_task s tid =
      (s\<lparr>tasks := Some (pre @ t\<lparr>t_done := Some (\<not> get_done t)\<rparr> # post)\<rparr>, True)"
    by (rule toggle_task_first_match)
  with True sp show ?thesis by auto
next
  case False
  then have "toggle_task s tid = (s, False)"
    by (intro toggle_task_no_match) blast
  with False show ?thesis by simp
qed

theorem toggle_task_spec_witness:
  "snd (toggle_task (default_state ''a'' ''b'') ''seed-manage'') \<and>
   \<not> snd (toggle_task (default_state ''a'' ''b'') ''missing-id'') \<and>
   fst (toggle_task (default_state ''a'' ''b'') ''missing-id'') = default_state ''a'' ''b''"
proof -
  have h1: "\<exists>t\<in>set (get_tasks (default_state ''a'' ''b'')). t_id t = Some ''seed-manage''"
    by (simp add: eval_defs)
  have h2: "\<forall>t\<in>set (get_tasks (default_state ''a'' ''b'')). t_id t \<noteq> Some ''missing-id''"
    by (simp add: eval_defs)
  from toggle_task_spec [of "default_state ''a'' ''b''" "''seed-manage''"] h1
  have "snd (toggle_task (default_state ''a'' ''b'') ''seed-manage'')"
    by blast
  moreover from toggle_task_spec [of "default_state ''a'' ''b''" "''missing-id''"] h2
  have "\<not> snd (toggle_task (default_state ''a'' ''b'') ''missing-id'') \<and>
   fst (toggle_task (default_state ''a'' ''b'') ''missing-id'') = default_state ''a'' ''b''"
    by blast
  ultimately show ?thesis ..
qed

subsection \<open>C8: the stored priority\<close>

text \<open>
  C8: the task that \<^verbatim>\<open>add_task\<close> appends has a priority between 1 and 5: 1 for an
  argument below 1, 5 for an argument above 5, and the argument itself otherwise. So 7
  is stored as 5 and -3 as 1.
\<close>

theorem add_task_priority_clamped:
  "\<exists>q. get_tasks (add_task s ttl p uid stamp) = get_tasks s @ [new_task ttl p uid stamp] \<and>
       t_priority (new_task ttl p uid stamp) = Some q \<and> 1 \<le> q \<and> q \<le> 5 \<and>
       (p < 1 \<longrightarrow> q = 1) \<and> (5 < p \<longrightarrow> q = 5) \<and> (1 \<le> p \<and> p \<le> 5 \<longrightarrow> q = p)"
  by (simp add: add_task_def new_task_def get_tasks_def)

theorem add_task_priority_clamped_witness:
  "t_priority (new_task ''x'' 7 ''u'' ''c'') = Some 5 \<and>
   t_priority (new_task ''x'' (- 3) ''u'' ''c'') = Some 1 \<and>
   t_priority (new_task ''x'' 4 ''u'' ''c'') = Some 4"
proof -
  from add_task_priority_clamped [of "default_state ''a'' ''b''" "''x''" 7 "''u''" "''c''"]
  have "t_priority (new_task ''x'' 7 ''u'' ''c'') = Some 5"
    by auto
  moreover from add_task_priority_clamped [of "default_state ''a'' ''b''" "''x''" "- 3" "''u''" "''c''"]
  have "t_priority (new_task ''x'' (- 3) ''u'' ''c'') = Some 1"
    by auto
  moreover from add_task_priority_clamped [of "default_state ''a'' ''b''" "''x''" 4 "''u''" "''c''"]
  have "t_priority (new_task ''x'' 4 ''u'' ''c'') = Some 4"
    by auto
  ultimately show ?thesis by blast
qed

subsection \<open>C9: the selected task is pending\<close>

text \<open>
  C9: a task returned by \<^verbatim>\<open>get_display_task\<close> is a task of the collection that is not
  done, and the function returns none whenever there is no pending task, whatever else
  the collection holds.
\<close>

theorem get_display_task_pending:
  "(\<forall>t. get_display_task s now = Some t \<longrightarrow> \<not> get_done t \<and> t \<in> set (get_tasks s)) \<and>
   (pending_tasks s = [] \<longrightarrow> get_display_task s now = None)"
proof (intro conjI allI impI)
  fix t
  assume g: "get_display_task s now = Some t"
  define pool where "pool = sorted_tasks (pending_tasks s)"
  from g have ne: "pool \<noteq> []" and t: "t = pool ! display_index pool now"
    by (auto simp: get_display_task_def pool_def Let_def split: if_splits)
  from ne have "display_index pool now < length pool"
    by (rule display_index_less)
  with t have "t \<in> set pool" by simp
  then have "t \<in> set (pending_tasks s)"
    by (simp add: pool_def set_sorted_tasks)
  then have both: "\<not> get_done t \<and> t \<in> set (get_tasks s)"
    by (simp add: pending_tasks_def)
  from both show "\<not> get_done t" ..
  from both show "t \<in> set (get_tasks s)" ..
next
  assume "pending_tasks s = []"
  then show "get_display_task s now = None"
    by (simp add: get_display_task_def sorted_tasks_Nil_iff)
qed

theorem get_display_task_pending_witness:
  "get_display_task (default_state ''a'' ''b'') 0 = Some (DEFAULT_TASKS ''a'' ''b'' ! 0) \<and>
   \<not> get_done (DEFAULT_TASKS ''a'' ''b'' ! 0) \<and>
   get_tasks done_state \<noteq> [] \<and> get_display_task done_state 0 = None"
proof -
  have g: "get_display_task (default_state ''a'' ''b'') 0 = Some (DEFAULT_TASKS ''a'' ''b'' ! 0)"
    by (simp add: get_display_task_def display_index_def py_int_def eval_defs)
  have h: "pending_tasks done_state = []"
    by (simp add: eval_defs)
  have n: "get_tasks done_state \<noteq> []"
    by (simp add: eval_defs)
  from get_display_task_pending [of "default_state ''a'' ''b''" 0] g
  have "\<not> get_done (DEFAULT_TASKS ''a'' ''b'' ! 0)"
    by blast
  moreover from get_display_task_pending [of done_state 0] h
  have "get_display_task done_state 0 = None"
    by blast
  ultimately show ?thesis using g n by blast
qed

subsection \<open>C10: toggling a task without a done key\<close>

text \<open>
  C10 says that toggling with the id of a task that has no \<^verbatim>\<open>done\<close> key sets that
  task's \<^verbatim>\<open>done\<close> to True, in every state. The loop of \<^verbatim>\<open>toggle_task\<close> returns at the
  first task carrying the id: when a completed task with the same id comes first, that
  one is flipped to not done and the task without the key is left without it.
\<close>

theorem toggle_task_duplicate_id_counterexample:
  "legacy_task \<in> set (get_tasks duplicate_id_state) \<and>
   t_id legacy_task = Some ''x'' \<and> t_done legacy_task = None \<and>
   toggle_task duplicate_id_state ''x'' =
     (\<lparr>tasks = Some [earlier_task\<lparr>t_done := Some False\<rparr>, legacy_task], show_index = Some 0\<rparr>,
      True)"
  by (simp add: toggle_task_def duplicate_id_state_def earlier_task_def legacy_task_def
      get_tasks_def get_done_def)

text \<open>
  C10 as amended: for every state containing a task that has no \<^verbatim>\<open>done\<close> key,
  \<^verbatim>\<open>toggle_task\<close> with that task's id returns true; and when no earlier task of the
  collection carries the same id (as when ids are unique), that task gets \<^verbatim>\<open>done\<close> set
  to True and nothing else changes: an absent \<^verbatim>\<open>done\<close> key is treated as false.
\<close>

theorem toggle_task_absent_done:
  "(t \<in> set (get_tasks s) \<and> t_id t = Some tid \<and> t_done t = None \<longrightarrow>
      snd (toggle_task s tid)) \<and>
   (get_tasks s = pre @ t # post \<and> (\<forall>u\<in>set pre. t_id u \<noteq> Some tid) \<and>
    t_id t = Some tid \<and> t_done t = None \<longrightarrow>
      toggle_task s tid = (s\<lparr>tasks := Some (pre @ t\<lparr>t_done := Some True\<rparr> # post)\<rparr>, True))"
proof (intro conjI impI)
  assume "t \<in> set (get_tasks s) \<and> t_id t = Some tid \<and> t_done t = None"
  then have "\<exists>t\<in>set (get_tasks s). t_id t = Some tid"
    by blast
  then show "snd (toggle_task s tid)"
    by (rule toggle_task_returns_True)
next
  assume a: "get_tasks s = pre @ t # post \<and> (\<forall>u\<in>set pre. t_id u \<noteq> Some tid) \<and>
    t_id t = Some tid \<and> t_done t = None"
  then have "\<not> get_done t"
    by (simp add: get_done_def)
  moreover from a have "toggle_task s tid =
      (s\<lparr>tasks := Some (pre @ t\<lparr>t_done := Some (\<not> get_done t)\<rparr> # post)\<rparr>, True)"
    by (intro toggle_task_first_match) simp_all
  ultimately show "toggle_task s tid =
      (s\<lparr>tasks := Some (pre @ t\<lparr>t_done := Some True\<rparr> # post)\<rparr>, True)"
    by simp
qed

theorem toggle_task_absent_done_witness:
  "toggle_task legacy_state ''x'' =
     (\<lparr>tasks = Some [legacy_task\<lparr>t_done := Some True\<rparr>], show_index = Some 0\<rparr>, True) \<and>
   snd (toggle_task duplicate_id_state ''x'')"
proof -
  have h1: "get_tasks legacy_state = [] @ legacy_task # [] \<and>
      (\<forall>u\<in>set []. t_id u \<noteq> Some ''x'') \<and>
      t_id legacy_task = Some ''x'' \<and> t_done legacy_task = None"
    by (simp add: get_tasks_def legacy_state_def legacy_task_def)
  have h2: "legacy_task \<in> set (get_tasks duplicate_id_state) \<and>
      t_id legacy_task = Some ''x'' \<and> t_done legacy_task = None"
    by (simp add: get_tasks_def duplicate_id_state_def legacy_task_def)
  from toggle_task_absent_done [of legacy_task legacy_state "''x''" "[]" "[]"] h1
  have "toggle_task legacy_state ''x'' =
      (legacy_state\<lparr>tasks := Some ([] @ legacy_task\<lparr>t_done := Some True\<rparr> # [])\<rparr>, True)"
    by blast
  then have "toggle_task legacy_state ''x'' =
     (\<lparr>tasks = Some [legacy_task\<lparr>t_done := Some True\<rparr>], show_index = Some 0\<rparr>, True)"
    by (simp add: legacy_state_def)
  moreover from toggle_task_absent_done [of legacy_task duplicate_id_state "''x''" "[]" "[]"] h2
  have "snd (toggle_task duplicate_id_state ''x'')"
    by blast
  ultimately show ?thesis ..
qed

end
